theory Spec2Isabelle
  imports Main "HOL-Library.Word"
begin

section \<open>The CAN message and the driver interface\<close>

text \<open>
  The sketch \<^verbatim>\<open>canalyzer.ino\<close> consists of \<^verbatim>\<open>setup()\<close> and \<^verbatim>\<open>loop()\<close>. Both talk to
  two collaborators that are not part of the sketch: the MCP2515 driver library
  (\<^verbatim>\<open>Canbus.init\<close>, \<^verbatim>\<open>mcp2515_check_message\<close>, \<^verbatim>\<open>mcp2515_get_message\<close>, the type
  \<^verbatim>\<open>tCAN\<close>, the constant \<^verbatim>\<open>CANSPEED_500\<close>) and the serial port of the Arduino core
  (\<^verbatim>\<open>Serial.print\<close>, \<^verbatim>\<open>Serial.println\<close>).
\<close>

type_synonym uint8_t = "8 word"

text \<open>
  Modelled from the spec: the struct \<^verbatim>\<open>tCAN\<close> is declared in the driver header
  \<^verbatim>\<open>mcp2515.h\<close>, which is not among the sources. The sketch reads three parts of it:
  \<^verbatim>\<open>message.id\<close>, \<^verbatim>\<open>message.header.length\<close> and \<^verbatim>\<open>message.data[i]\<close>. The
  identifier is an unsigned integer (11-bit or 29-bit range), held here in 32 bits,
  the width of \<^verbatim>\<open>unsigned long\<close> to which \<^verbatim>\<open>Serial.print(n, HEX)\<close> converts its
  argument. The length is an unsigned count. The data array is a C array of bytes;
  a CAN frame carries at most eight, so the array has eight cells (\<open>tCAN_wf\<close>),
  whatever the length field says.
\<close>

record tCAN =
  id_field :: "32 word"
  header_length :: nat
  data :: "uint8_t list"

definition tCAN_wf :: "tCAN \<Rightarrow> bool" where
  "tCAN_wf message \<longleftrightarrow> length (data message) = 8"

text \<open>
  A valid frame in the sense of the data model: identifier in the 29-bit range (which
  contains the 11-bit range), length between 0 and 8, and the payload is the first
  \<open>header_length\<close> cells of the data array, so that its length is the length field.
\<close>

definition valid_frame :: "tCAN \<Rightarrow> bool" where
  "valid_frame message \<longleftrightarrow>
     tCAN_wf message \<and> header_length message \<le> 8 \<and> unat (id_field message) < 2 ^ 29"

definition payload :: "tCAN \<Rightarrow> uint8_t list" where
  "payload message = take (header_length message) (data message)"

text \<open>
  The driver is a parameter: a state \<open>'h\<close> of the controller hardware and the three
  entry points the sketch calls, each returning its result and the next hardware state.
  The sketch only tests the results for being non-zero, so they are booleans;
  \<^verbatim>\<open>mcp2515_get_message(&message)\<close> fills \<^verbatim>\<open>message\<close> when it returns non-zero, which
  is \<open>Some message\<close> here, and \<open>None\<close> when it returns zero. \<^verbatim>\<open>CANSPEED_500\<close> is a
  constant of the driver header and is a field of the parameter as well.
\<close>

record 'h driver =
  CANSPEED_500 :: nat
  Canbus_init :: "nat \<Rightarrow> 'h \<Rightarrow> bool \<times> 'h"
  mcp2515_check_message :: "'h \<Rightarrow> bool \<times> 'h"
  mcp2515_get_message :: "'h \<Rightarrow> tCAN option \<times> 'h"

text \<open>Every call into the driver is logged with its result.\<close>

datatype call =
    Call_init bool
  | Call_check_message bool
  | Call_get_message "tCAN option"

text \<open>
  The world the sketch runs in: the hardware state, every character written to the
  serial port so far, and the log of driver calls.
\<close>

record 'h world =
  hw :: 'h
  serial :: string
  calls :: "call list"

text \<open>
  The two ways the formatting code could leave defined behaviour: \<^verbatim>\<open>sprintf\<close> writing
  past the end of \<^verbatim>\<open>char data[3]\<close>, and \<^verbatim>\<open>message.data[i]\<close> read past the end of the
  array. A fault carries the world at the moment it happens.
\<close>

datatype fault = Buffer_overrun | Array_out_of_bounds

type_synonym 'h outcome = "(fault \<times> 'h world) + 'h world"

section \<open>The serial port\<close>

text \<open>
  Modelled from the spec: the serial port (the output sink of section 6) belongs to the
  Arduino core, which is not among the sources. \<^verbatim>\<open>Serial.print(s)\<close> writes the
  characters of \<open>s\<close>; \<^verbatim>\<open>Serial.println(s)\<close> writes them and then ends the line. The
  newline of section 4.3 is, on this core, carriage return and line feed.
\<close>

definition line_end :: string where
  "line_end = [CHR 0x0D, CHR 0x0A]"

definition Serial_print :: "string \<Rightarrow> 'h world \<Rightarrow> 'h world" where
  "Serial_print s w = w\<lparr>serial := serial w @ s\<rparr>"

definition Serial_println :: "string \<Rightarrow> 'h world \<Rightarrow> 'h world" where
  "Serial_println s w = w\<lparr>serial := serial w @ s @ line_end\<rparr>"

text \<open>
  Modelled from the spec: \<^verbatim>\<open>Serial.print(n, HEX)\<close> is the core's too. Section 4.3 has
  it render an unsigned integer in uppercase hexadecimal with no prefix and no padding.
  The core does so in \<^verbatim>\<open>printNumber(n, 16)\<close>, a do-while loop that takes the last digit
  \<^verbatim>\<open>c = n % base\<close>, divides \<^verbatim>\<open>n /= base\<close>, and stores
  \<^verbatim>\<open>c < 10 ? c + '0' : c + 'A' - 10\<close> in front of what it has so far, until \<open>n\<close> is 0;
  the model follows that loop, for base 16.
\<close>

definition digit_char :: "nat \<Rightarrow> char" where
  "digit_char c =
     (if c < 10 then char_of (c + of_char (CHR ''0''))
      else char_of (c + of_char (CHR ''A'') - 10))"

function printNumber_loop :: "nat \<Rightarrow> string \<Rightarrow> string" where
  "printNumber_loop n str =
     (let c = n mod 16;
          n' = n div 16;
          str' = digit_char c # str
      in if n' \<noteq> 0 then printNumber_loop n' str' else str')"
  by pat_completeness auto
termination
  by (relation "measure (\<lambda>(n, str). n)") auto

definition printNumber_HEX :: "nat \<Rightarrow> string" where
  "printNumber_HEX n = printNumber_loop n []"

definition Serial_print_HEX :: "32 word \<Rightarrow> 'h world \<Rightarrow> 'h world" where
  "Serial_print_HEX n w = Serial_print (printNumber_HEX (unat n)) w"

section \<open>The conversion \<^verbatim>\<open>%02X\<close> into a local buffer\<close>

text \<open>
  Modelled from the spec: \<^verbatim>\<open>sprintf\<close> is the C library's and not among the sources.
  Section 4.3 has each byte as two uppercase hexadecimal digits, zero-padded. In
  \<^verbatim>\<open>sprintf(data, "%02X", v)\<close> the argument is converted to unsigned hexadecimal with
  the letters \<^verbatim>\<open>ABCDEF\<close>; the flag \<^verbatim>\<open>0\<close> with width 2 pads with zeros on the left up
  to two characters; a width is a minimum and never truncates, so a larger argument
  gives more characters. The characters and a terminating NUL are written to the
  buffer, here of \<open>cap\<close> characters; more than fit is a fault.
  A \<^verbatim>\<open>uint8_t\<close> argument is promoted and arrives as its value \<open>unat v\<close>.
\<close>

definition conv_02X :: "nat \<Rightarrow> string" where
  "conv_02X v =
     (let digits = printNumber_HEX v
      in replicate (2 - length digits) (CHR ''0'') @ digits)"

definition sprintf_02X :: "nat \<Rightarrow> uint8_t \<Rightarrow> fault + string" where
  "sprintf_02X cap v =
     (let s = conv_02X (unat v)
      in if length s + 1 \<le> cap then Inr s else Inl Buffer_overrun)"

section \<open>The sketch\<close>

text \<open>
  \<^verbatim>\<open>setup()\<close>. \<^verbatim>\<open>Serial.begin(9600)\<close> and \<^verbatim>\<open>delay(1000)\<close> change neither the
  characters written nor the driver calls made and are left out.
\<close>

definition setup_ino :: "'h driver \<Rightarrow> 'h world \<Rightarrow> 'h world" where
  "setup_ino D w =
     (let (ok, h) = Canbus_init D (CANSPEED_500 D) (hw w);
          w1 = w\<lparr>hw := h, calls := calls w @ [Call_init ok]\<rparr>;
          w2 = (if ok then Serial_println ''CAN Init ok'' w1
                else Serial_println ''Can't init CAN'' w1)
      in Serial_println ''CAN Read - Test receiving of CAN Bus message'' w2)"

text \<open>
  The \<^verbatim>\<open>for\<close> loop over the payload, from index \<open>i\<close> on:
  \<^verbatim>\<open>for (int i = 0; i < message.header.length; i++)
    { char data[3]; sprintf(data, "%02X", message.data[i]); Serial.print(data); }\<close>
\<close>

function print_data :: "nat \<Rightarrow> tCAN \<Rightarrow> 'h world \<Rightarrow> 'h outcome" where
  "print_data i message w =
     (if i < header_length message then
        (if i < length (data message) then
           (case sprintf_02X 3 (data message ! i) of
              Inl e \<Rightarrow> Inl (e, w)
            | Inr buf \<Rightarrow> print_data (i + 1) message (Serial_print buf w))
         else Inl (Array_out_of_bounds, w))
      else Inr w)"
  by pat_completeness auto
termination
  by (relation "measure (\<lambda>(i, message, w). header_length message - i)") auto

text \<open>The body of the inner \<^verbatim>\<open>if\<close> of \<^verbatim>\<open>loop()\<close>: what is printed for one message.\<close>

definition print_message :: "tCAN \<Rightarrow> 'h world \<Rightarrow> 'h outcome" where
  "print_message message w =
     (let w1 = Serial_print ''ID: '' w;
          w2 = Serial_print_HEX (id_field message) w1;
          w3 = Serial_print '' '' w2;
          w4 = Serial_print ''Data: '' w3
      in case print_data 0 message w4 of
           Inl e \<Rightarrow> Inl e
         | Inr w5 \<Rightarrow> Inr (Serial_println [] w5))"

text \<open>\<^verbatim>\<open>loop()\<close>: one iteration.\<close>

definition loop :: "'h driver \<Rightarrow> 'h world \<Rightarrow> 'h outcome" where
  "loop D w =
     (let (pending, h1) = mcp2515_check_message D (hw w);
          w1 = w\<lparr>hw := h1, calls := calls w @ [Call_check_message pending]\<rparr>
      in if pending then
           (let (got, h2) = mcp2515_get_message D h1;
                w2 = w1\<lparr>hw := h2, calls := calls w1 @ [Call_get_message got]\<rparr>
            in case got of
                 Some message \<Rightarrow> print_message message w2
               | None \<Rightarrow> Inr w2)
         else Inr w1)"

text \<open>
  Modelled from the spec: the caller of the two functions is the core's \<^verbatim>\<open>main\<close>, not
  among the sources. It runs \<^verbatim>\<open>setup()\<close> once and then \<^verbatim>\<open>loop()\<close> for ever
  (section 4.2). The program never returns, so a run is observed after its first \<open>n\<close>
  iterations, for any \<open>n\<close>; a fault ends it.
\<close>

fun loops :: "'h driver \<Rightarrow> nat \<Rightarrow> 'h world \<Rightarrow> 'h outcome" where
  "loops D 0 w = Inr w"
| "loops D (Suc n) w =
     (case loop D w of
        Inl e \<Rightarrow> Inl e
      | Inr w' \<Rightarrow> loops D n w')"

definition power_on :: "'h \<Rightarrow> 'h world" where
  "power_on h = \<lparr>hw = h, serial = [], calls = []\<rparr>"

definition run :: "'h driver \<Rightarrow> nat \<Rightarrow> 'h \<Rightarrow> 'h outcome" where
  "run D n h = loops D n (setup_ino D (power_on h))"

text \<open>What an outcome leaves behind, fault or not.\<close>

fun world_of :: "'h outcome \<Rightarrow> 'h world" where
  "world_of (Inl (e, w)) = w"
| "world_of (Inr w) = w"

fun faulted :: "'h outcome \<Rightarrow> bool" where
  "faulted (Inl e) = True"
| "faulted (Inr w) = False"

text \<open>What one step added to the serial output and to the call log.\<close>

definition written :: "'h world \<Rightarrow> 'h outcome \<Rightarrow> string" where
  "written w r = drop (length (serial w)) (serial (world_of r))"

definition called :: "'h world \<Rightarrow> 'h outcome \<Rightarrow> call list" where
  "called w r = drop (length (calls w)) (calls (world_of r))"

section \<open>The output grammar, as the specification words it\<close>

text \<open>
  The identifier is rendered in uppercase hexadecimal with no prefix and no padding:
  the digits of the number in base 16, most significant first, a single \<open>0\<close> for zero.
\<close>

definition hex_digits_upper :: string where
  "hex_digits_upper = ''0123456789ABCDEF''"

function uppercase_hex :: "nat \<Rightarrow> string" where
  "uppercase_hex n =
     (if n < 16 then [hex_digits_upper ! n]
      else uppercase_hex (n div 16) @ [hex_digits_upper ! (n mod 16)])"
  by pat_completeness auto
termination
  by (relation "measure (\<lambda>n. n)") auto

text \<open>A payload byte is exactly two uppercase hexadecimal digits, zero-padded.\<close>

definition two_hex_digits :: "uint8_t \<Rightarrow> string" where
  "two_hex_digits b =
     [hex_digits_upper ! (unat b div 16), hex_digits_upper ! (unat b mod 16)]"

text \<open>
  The line for one frame: \<^verbatim>\<open>ID: <hex-identifier><space>Data: <byte0>...<byteN-1>\<close> and
  the line terminator, the bytes in payload order with no separators.
\<close>

definition format_line :: "tCAN \<Rightarrow> string" where
  "format_line message =
     ''ID: '' @ uppercase_hex (unat (id_field message)) @ '' '' @ ''Data: ''
       @ concat (map two_hex_digits (payload message)) @ line_end"

subsection \<open>Reading a line back\<close>

text \<open>
  A reader of the grammar, for the round trip. A hexadecimal digit has a value; the
  identifier is a non-empty run of digits read as a number; the data segment is the run
  of digits between \<^verbatim>\<open>Data: \<close> and the line terminator, decoded pair by pair.
\<close>

definition hex_value :: "char \<Rightarrow> nat option" where
  "hex_value c =
     (let k = (of_char c :: nat)
      in if 48 \<le> k \<and> k \<le> 57 then Some (k - 48)
         else if 65 \<le> k \<and> k \<le> 70 then Some (k - 55)
         else None)"

definition is_hex :: "char \<Rightarrow> bool" where
  "is_hex c \<longleftrightarrow> hex_value c \<noteq> None"

definition hex_number :: "string \<Rightarrow> nat" where
  "hex_number s = foldl (\<lambda>acc c. 16 * acc + (case hex_value c of Some d \<Rightarrow> d | None \<Rightarrow> 0)) 0 s"

fun parse_hex_bytes :: "string \<Rightarrow> uint8_t list option" where
  "parse_hex_bytes [] = Some []"
| "parse_hex_bytes [c] = None"
| "parse_hex_bytes (hi # lo # rest) =
     (case (hex_value hi, hex_value lo, parse_hex_bytes rest) of
        (Some a, Some b, Some bs) \<Rightarrow> Some (of_nat (16 * a + b) # bs)
      | _ \<Rightarrow> None)"

definition parse_line :: "string \<Rightarrow> (nat \<times> uint8_t list) option" where
  "parse_line l =
     (if take 4 l = ''ID: '' then
        (let r1 = drop 4 l;
             id_text = takeWhile is_hex r1;
             r2 = dropWhile is_hex r1
         in if id_text \<noteq> [] \<and> take 7 r2 = '' Data: '' then
              (let r3 = drop 7 r2;
                   segment = takeWhile is_hex r3;
                   r4 = dropWhile is_hex r3
               in if r4 = line_end then
                    (case parse_hex_bytes segment of
                       Some bytes \<Rightarrow> Some (hex_number id_text, bytes)
                     | None \<Rightarrow> None)
                  else None)
            else None)
      else None)"

subsection \<open>Reading the call log\<close>

fun is_get_message :: "call \<Rightarrow> bool" where
  "is_get_message (Call_get_message got) = True"
| "is_get_message c = False"

fun is_check_message :: "call \<Rightarrow> bool" where
  "is_check_message (Call_check_message pending) = True"
| "is_check_message c = False"

text \<open>
  A log of whole iterations: each is one \<^verbatim>\<open>mcp2515_check_message\<close> that returned false,
  or one that returned true followed by one \<^verbatim>\<open>mcp2515_get_message\<close>.
\<close>

fun guarded_log :: "call list \<Rightarrow> bool" where
  "guarded_log [] = True"
| "guarded_log (Call_check_message True # Call_get_message got # cs) = guarded_log cs"
| "guarded_log (Call_check_message False # cs) = guarded_log cs"
| "guarded_log cs = False"

text \<open>
  What one iteration may add to the log, and what it then writes: nothing unless a
  message was received, and the line of that message if one was.
\<close>

fun one_line_per_get :: "call list \<Rightarrow> string \<Rightarrow> bool" where
  "one_line_per_get [Call_check_message False] out = (out = [])"
| "one_line_per_get [Call_check_message True, Call_get_message None] out = (out = [])"
| "one_line_per_get [Call_check_message True, Call_get_message (Some message)] out =
     (out = format_line message)"
| "one_line_per_get cs out = False"

subsection \<open>A quiet controller\<close>

text \<open>
  The controller stays quiet for \<open>n\<close> iterations from hardware state \<open>h\<close>:
  \<^verbatim>\<open>mcp2515_check_message\<close> returns false in \<open>h\<close> and in each of the states the next
  \<open>n - 1\<close> such calls lead to. Only the states the run itself passes through are asked.
\<close>

fun quiet_for :: "'h driver \<Rightarrow> nat \<Rightarrow> 'h \<Rightarrow> bool" where
  "quiet_for D 0 h = True"
| "quiet_for D (Suc n) h =
     (\<not> fst (mcp2515_check_message D h) \<and> quiet_for D n (snd (mcp2515_check_message D h)))"

section \<open>Simulated controllers and sample frames\<close>

text \<open>
  Modelled from the spec: the Controller Adapter (section 4.1) is the driver library,
  which is not among the sources. This simulated adapter keeps the received frames in a
  queue: \<^verbatim>\<open>hasPendingFrame\<close> tells whether the queue is non-empty and changes nothing,
  \<^verbatim>\<open>receiveFrame\<close> yields nothing on an empty queue and otherwise dequeues exactly one
  frame. The hardware state also fixes whether \<^verbatim>\<open>initialize\<close> will succeed.
\<close>

definition fifo_driver :: "(bool \<times> tCAN list) driver" where
  "fifo_driver =
     \<lparr>CANSPEED_500 = 1,
      Canbus_init = (\<lambda>speed (ok, queue). (ok, (ok, queue))),
      mcp2515_check_message = (\<lambda>(ok, queue). (queue \<noteq> [], (ok, queue))),
      mcp2515_get_message = (\<lambda>(ok, queue).
         case queue of
           [] \<Rightarrow> (None, (ok, queue))
         | message # queue' \<Rightarrow> (Some message, (ok, queue')))\<rparr>"

text \<open>The calls \<open>n\<close> iterations make on a queue of frames.\<close>

definition fifo_calls :: "nat \<Rightarrow> tCAN list \<Rightarrow> call list" where
  "fifo_calls n queue =
     concat (map (\<lambda>message. [Call_check_message True, Call_get_message (Some message)])
               (take n queue))
       @ replicate (n - length queue) (Call_check_message False)"

text \<open>The frames of the concrete scenarios.\<close>

definition obd_request :: tCAN where
  "obd_request =
     \<lparr>id_field = 0x7DF, header_length = 3, data = [0x02, 0x01, 0x0C, 0, 0, 0, 0, 0]\<rparr>"

definition obd_request_stale :: tCAN where
  "obd_request_stale =
     \<lparr>id_field = 0x7DF, header_length = 3,
      data = [0x02, 0x01, 0x0C, 0xAA, 0xBB, 0xCC, 0xDD, 0xEE]\<rparr>"

definition empty_frame :: tCAN where
  "empty_frame = \<lparr>id_field = 0x100, header_length = 0, data = [0, 0, 0, 0, 0, 0, 0, 0]\<rparr>"

definition engine_reply :: tCAN where
  "engine_reply =
     \<lparr>id_field = 0x7E8, header_length = 4, data = [0x04, 0x41, 0x0C, 0x1A, 0, 0, 0, 0]\<rparr>"

section \<open>The conversions agree with the grammar\<close>

declare printNumber_loop.simps [simp del]
declare uppercase_hex.simps [simp del]
declare print_data.simps [simp del]

lemma below_16_cases:
  "c < 16 \<Longrightarrow> c \<in> {0, 1, 2, 3, 4, 5, 6, 7, 8, 9, 10, 11, 12, 13, 14, 15::nat}"
  by simp arith

lemma digit_char_table: "c < 16 \<Longrightarrow> digit_char c = hex_digits_upper ! c"
proof -
  assume "c < 16"
  then have "c \<in> {0, 1, 2, 3, 4, 5, 6, 7, 8, 9, 10, 11, 12, 13, 14, 15::nat}"
    by (rule below_16_cases)
  then show ?thesis
    by (auto simp: digit_char_def hex_digits_upper_def char_of_eq_iff)
qed

lemma printNumber_loop_eq: "printNumber_loop n str = uppercase_hex n @ str"
proof (induction n str rule: printNumber_loop.induct)
  case (1 n str)
  show ?case
  proof (cases "n div 16 = 0")
    case True
    then have "n < 16" by (simp add: div_eq_0_iff)
    then show ?thesis
      by (simp add: printNumber_loop.simps [of n] uppercase_hex.simps [of n] digit_char_table)
  next
    case False
    then have ge: "\<not> n < 16" by (simp add: div_eq_0_iff)
    have "printNumber_loop n str = printNumber_loop (n div 16) (digit_char (n mod 16) # str)"
      using False by (simp add: printNumber_loop.simps [of n str] Let_def)
    also have "\<dots> = uppercase_hex (n div 16) @ digit_char (n mod 16) # str"
      using False "1.IH" by simp
    also have "\<dots> = uppercase_hex n @ str"
      using ge by (simp add: uppercase_hex.simps [of n] digit_char_table)
    finally show ?thesis .
  qed
qed

lemma printNumber_HEX_eq: "printNumber_HEX n = uppercase_hex n"
  by (simp add: printNumber_HEX_def printNumber_loop_eq)

lemma uppercase_hex_small: "n < 16 \<Longrightarrow> uppercase_hex n = [hex_digits_upper ! n]"
  by (simp add: uppercase_hex.simps [of n])

lemma uppercase_hex_byte:
  "16 \<le> n \<Longrightarrow> n < 256 \<Longrightarrow>
     uppercase_hex n = [hex_digits_upper ! (n div 16), hex_digits_upper ! (n mod 16)]"
  by (simp add: uppercase_hex.simps [of n] uppercase_hex_small less_mult_imp_div_less)

lemma conv_02X_byte:
  "n < 256 \<Longrightarrow> conv_02X n = [hex_digits_upper ! (n div 16), hex_digits_upper ! (n mod 16)]"
proof (cases "n < 16")
  case True
  then show ?thesis
    by (simp add: conv_02X_def printNumber_HEX_eq uppercase_hex_small hex_digits_upper_def)
next
  case False
  assume "n < 256"
  with False show ?thesis
    by (simp add: conv_02X_def printNumber_HEX_eq uppercase_hex_byte)
qed

lemma conv_02X_three_digits: "conv_02X 256 = ''100''"
  by (simp add: conv_02X_def printNumber_HEX_eq uppercase_hex.simps hex_digits_upper_def)

lemma unat_uint8_less: "unat (v :: uint8_t) < 256"
  using unsigned_less [of v, where ?'a = nat] by simp

lemma sprintf_02X_byte: "sprintf_02X 3 v = Inr (two_hex_digits v)"
  by (simp add: sprintf_02X_def conv_02X_byte unat_uint8_less two_hex_digits_def)

section \<open>What one message prints\<close>

lemma print_data_eq:
  "header_length message \<le> length (data message) \<Longrightarrow>
     print_data i message w =
       Inr (w\<lparr>serial := serial w @ concat (map two_hex_digits (drop i (payload message)))\<rparr>)"
proof (induction i message w rule: print_data.induct)
  case (1 i message w)
  show ?case
  proof (cases "i < header_length message")
    case False
    then show ?thesis
      by (simp add: print_data.simps [of i] payload_def)
  next
    case True
    with "1.prems" have inb: "i < length (data message)" by simp
    have split: "drop i (payload message) = data message ! i # drop (i + 1) (payload message)"
    proof -
      have "i < length (payload message)"
        using True inb by (simp add: payload_def)
      then have "drop i (payload message) = payload message ! i # drop (Suc i) (payload message)"
        by (simp add: Cons_nth_drop_Suc)
      moreover have "payload message ! i = data message ! i"
        using True by (simp add: payload_def)
      ultimately show ?thesis by simp
    qed
    have "print_data i message w =
            print_data (i + 1) message (Serial_print (two_hex_digits (data message ! i)) w)"
      using True inb by (simp add: print_data.simps [of i] sprintf_02X_byte)
    also have "\<dots> = Inr (Serial_print (two_hex_digits (data message ! i)) w
            \<lparr>serial := serial (Serial_print (two_hex_digits (data message ! i)) w)
               @ concat (map two_hex_digits (drop (i + 1) (payload message)))\<rparr>)"
      using "1.IH" [OF True inb sprintf_02X_byte] "1.prems" by simp
    also have "\<dots> = Inr (w\<lparr>serial := serial w
            @ concat (map two_hex_digits (drop i (payload message)))\<rparr>)"
      by (simp add: Serial_print_def split)
    finally show ?thesis .
  qed
qed

lemma print_message_eq:
  "header_length message \<le> length (data message) \<Longrightarrow>
     print_message message w = Inr (w\<lparr>serial := serial w @ format_line message\<rparr>)"
  by (simp add: print_message_def print_data_eq Serial_print_def Serial_println_def
      Serial_print_HEX_def printNumber_HEX_eq format_line_def)

lemma valid_frame_fits:
  "valid_frame message \<Longrightarrow> header_length message \<le> length (data message)"
  by (simp add: valid_frame_def tCAN_wf_def)

lemma print_message_valid:
  "valid_frame message \<Longrightarrow>
     print_message message w = Inr (w\<lparr>serial := serial w @ format_line message\<rparr>)"
  by (simp add: print_message_eq valid_frame_fits)

lemma valid_obd_request: "valid_frame obd_request"
  by (simp add: valid_frame_def tCAN_wf_def obd_request_def)

lemma valid_empty_frame: "valid_frame empty_frame"
  by (simp add: valid_frame_def tCAN_wf_def empty_frame_def)

lemma format_line_obd_request: "format_line obd_request = ''ID: 7DF Data: 02010C'' @ line_end"
  by (simp add: format_line_def obd_request_def payload_def two_hex_digits_def
      hex_digits_upper_def uppercase_hex.simps)

lemma format_line_empty_frame: "format_line empty_frame = ''ID: 100 Data: '' @ line_end"
  by (simp add: format_line_def empty_frame_def payload_def two_hex_digits_def
      hex_digits_upper_def uppercase_hex.simps)

section \<open>The formatted line\<close>

text \<open>
  C1: for every valid frame (identifier in the 11-bit or 29-bit range, length in 0..8, the
  payload being the first \<open>header_length\<close> bytes of the data array) the formatting step
  writes exactly \<^verbatim>\<open>ID: \<close>, the identifier in uppercase hexadecimal with no prefix and no
  padding, a space, \<^verbatim>\<open>Data: \<close>, each payload byte as two zero-padded uppercase
  hexadecimal digits in payload order with no separators, and the line terminator of
  \<^verbatim>\<open>Serial.println\<close> (the newline, CR LF on this port). It does not fault. The frame
  with identifier 0x7DF and payload 02 01 0C gives \<^verbatim>\<open>ID: 7DF Data: 02010C\<close>, which is
  the witness.
\<close>

theorem print_message_line:
  assumes "valid_frame message"
  shows "print_message message w =
           Inr (w\<lparr>serial := serial w @ ''ID: '' @ uppercase_hex (unat (id_field message))
                  @ '' '' @ ''Data: '' @ concat (map two_hex_digits (payload message))
                  @ line_end\<rparr>)"
  using assms by (simp add: print_message_valid format_line_def)

theorem print_message_line_witness:
  "valid_frame obd_request \<and>
   print_message obd_request (power_on ()) =
     Inr (power_on ()\<lparr>serial := ''ID: 7DF Data: 02010C'' @ line_end\<rparr>)"
proof
  show "valid_frame obd_request" by (rule valid_obd_request)
  show "print_message obd_request (power_on ()) =
          Inr (power_on ()\<lparr>serial := ''ID: 7DF Data: 02010C'' @ line_end\<rparr>)"
    using print_message_line [OF valid_obd_request, of "power_on ()"]
    by (simp add: obd_request_def payload_def two_hex_digits_def
        hex_digits_upper_def uppercase_hex.simps power_on_def)
qed

text \<open>
  C5: for every valid frame whose length is 0 the line still has its \<^verbatim>\<open>Data: \<close> segment,
  empty and followed at once by the line terminator: the line is \<^verbatim>\<open>ID: <hex> Data: \<close>
  and the newline.
\<close>

theorem print_message_empty_payload:
  assumes "valid_frame message" and "header_length message = 0"
  shows "print_message message w =
           Inr (w\<lparr>serial := serial w @ ''ID: '' @ uppercase_hex (unat (id_field message))
                  @ '' '' @ ''Data: '' @ line_end\<rparr>)"
  using assms by (simp add: print_message_valid format_line_def payload_def)

theorem print_message_empty_payload_witness:
  "valid_frame empty_frame \<and> header_length empty_frame = 0 \<and>
   print_message empty_frame (power_on ()) =
     Inr (power_on ()\<lparr>serial := ''ID: 100 Data: '' @ line_end\<rparr>)"
proof -
  have len: "header_length empty_frame = 0" by (simp add: empty_frame_def)
  have "print_message empty_frame (power_on ()) =
          Inr (power_on ()\<lparr>serial := ''ID: 100 Data: '' @ line_end\<rparr>)"
    using print_message_empty_payload [OF valid_empty_frame len, of "power_on ()"]
    by (simp add: empty_frame_def hex_digits_upper_def uppercase_hex.simps power_on_def)
  with valid_empty_frame len show ?thesis by simp
qed

text \<open>
  C10: for every byte value (0 to 255, every value of a \<^verbatim>\<open>uint8_t\<close>) the conversion
  \<^verbatim>\<open>%02X\<close> gives exactly two characters, so these two and the terminating NUL never
  exceed the three characters of the local buffer: the \<^verbatim>\<open>sprintf\<close> of the formatting
  step does not overrun it. (A value of 256 would: \<open>conv_02X_three_digits\<close>.)
\<close>

theorem sprintf_02X_fits:
  "length (conv_02X (unat (v :: uint8_t))) = 2 \<and>
   length (conv_02X (unat v)) + 1 \<le> 3 \<and>
   sprintf_02X 3 v = Inr (conv_02X (unat v))"
  by (simp add: sprintf_02X_def conv_02X_byte unat_uint8_less)

section \<open>Frames that agree on what is printed\<close>

lemma print_data_agree:
  "header_length m1 = header_length m2 \<Longrightarrow> payload m1 = payload m2 \<Longrightarrow>
     print_data i m1 w = print_data i m2 w"
proof (induction i m1 w rule: print_data.induct)
  case (1 i m1 w)
  show ?case
  proof (cases "i < header_length m1")
    case False
    with "1.prems" show ?thesis
      by (simp add: print_data.simps [of i])
  next
    case True
    have "length (payload m1) = length (payload m2)"
      using "1.prems" by simp
    then have bound: "i < length (data m1) \<longleftrightarrow> i < length (data m2)"
      using True "1.prems" by (simp add: payload_def min_def split: if_splits)
    show ?thesis
    proof (cases "i < length (data m1)")
      case False
      with True bound "1.prems" show ?thesis
        by (simp add: print_data.simps [of i])
    next
      case inb: True
      have p1: "payload m1 ! i = data m1 ! i"
        unfolding payload_def using True by (rule nth_take)
      have "i < header_length m2"
        using True "1.prems" by simp
      then have p2: "payload m2 ! i = data m2 ! i"
        unfolding payload_def by (rule nth_take)
      have cell: "data m1 ! i = data m2 ! i"
        using p1 p2 "1.prems" by simp
      show ?thesis
      proof (cases "sprintf_02X 3 (data m1 ! i)")
        case (Inl e)
        with True inb bound cell "1.prems" show ?thesis
          by (simp add: print_data.simps [of i])
      next
        case (Inr buf)
        from "1.IH" [OF True inb Inr "1.prems"]
        show ?thesis
          using True inb bound cell Inr "1.prems"
          by (simp add: print_data.simps [of i])
      qed
    qed
  qed
qed

lemma print_message_agree:
  "id_field m1 = id_field m2 \<Longrightarrow> header_length m1 = header_length m2 \<Longrightarrow>
   payload m1 = payload m2 \<Longrightarrow> print_message m1 w = print_message m2 w"
  by (simp add: print_message_def print_data_agree [of m1 m2])

text \<open>
  C9: the line depends only on the identifier, the length and the first
  \<open>header_length\<close> bytes of the data array. Two frames that agree on these print the
  same, whatever the rest of their data arrays holds (a statement about two runs).
\<close>

theorem print_message_noninterference:
  assumes "id_field m1 = id_field m2"
      and "header_length m1 = header_length m2"
      and "take (header_length m1) (data m1) = take (header_length m2) (data m2)"
  shows "print_message m1 w = print_message m2 w \<and>
         written w (print_message m1 w) = written w (print_message m2 w)"
  using assms by (simp add: print_message_agree [of m1 m2] payload_def)

theorem print_message_noninterference_witness:
  "id_field obd_request = id_field obd_request_stale \<and>
   header_length obd_request = header_length obd_request_stale \<and>
   take (header_length obd_request) (data obd_request) =
     take (header_length obd_request_stale) (data obd_request_stale) \<and>
   data obd_request \<noteq> data obd_request_stale \<and>
   print_message obd_request (power_on ()) = print_message obd_request_stale (power_on ()) \<and>
   written (power_on ()) (print_message obd_request_stale (power_on ())) =
     ''ID: 7DF Data: 02010C'' @ line_end"
proof -
  have a: "id_field obd_request = id_field obd_request_stale"
    by (simp add: obd_request_def obd_request_stale_def)
  have b: "header_length obd_request = header_length obd_request_stale"
    by (simp add: obd_request_def obd_request_stale_def)
  have c: "take (header_length obd_request) (data obd_request) =
     take (header_length obd_request_stale) (data obd_request_stale)"
    by (simp add: obd_request_def obd_request_stale_def)
  have d: "data obd_request \<noteq> data obd_request_stale"
    by (simp add: obd_request_def obd_request_stale_def)
  have e: "written (power_on ()) (print_message obd_request (power_on ())) =
     ''ID: 7DF Data: 02010C'' @ line_end"
    by (simp add: print_message_valid valid_obd_request written_def format_line_obd_request)
  from print_message_noninterference [OF a b c, of "power_on ()"] a b c d e
  show ?thesis by simp
qed

section \<open>Formatting touches only the serial output\<close>

text \<open>
  C6: formatting is deterministic, free of side effects and total on valid frames. Applied
  to equal frames, in whatever worlds, it writes the same characters; it never faults on
  a valid frame; and besides appending the line to the serial output it changes nothing:
  the hardware state and the log of driver calls stay as they were.
\<close>

theorem print_message_deterministic_total:
  assumes "valid_frame message" and "message' = message"
  shows "\<not> faulted (print_message message w) \<and>
         written w (print_message message w) = written w' (print_message message' w') \<and>
         written w (print_message message w) = format_line message \<and>
         serial (world_of (print_message message w)) = serial w @ format_line message \<and>
         hw (world_of (print_message message w)) = hw w \<and>
         calls (world_of (print_message message w)) = calls w"
  using assms by (simp add: print_message_valid written_def)

theorem print_message_deterministic_total_witness:
  "valid_frame obd_request \<and>
   \<not> faulted (print_message obd_request (power_on ())) \<and>
   written (power_on ()) (print_message obd_request (power_on ())) =
     written (power_on (True, [engine_reply]))
       (print_message obd_request (power_on (True, [engine_reply]))) \<and>
   written (power_on ()) (print_message obd_request (power_on ())) =
     ''ID: 7DF Data: 02010C'' @ line_end"
proof -
  note at_input = print_message_deterministic_total [OF valid_obd_request refl,
      of "power_on ()" "power_on (True, [engine_reply])"]
  have "\<not> faulted (print_message obd_request (power_on ()))"
    using at_input by blast
  moreover have "written (power_on ()) (print_message obd_request (power_on ())) =
     written (power_on (True, [engine_reply]))
       (print_message obd_request (power_on (True, [engine_reply])))"
    using at_input by blast
  moreover have "written (power_on ()) (print_message obd_request (power_on ())) =
     format_line obd_request"
    using at_input by blast
  then have "written (power_on ()) (print_message obd_request (power_on ())) =
     ''ID: 7DF Data: 02010C'' @ line_end"
    by (simp only: format_line_obd_request)
  ultimately show ?thesis
    using valid_obd_request by blast
qed

section \<open>Startup\<close>

text \<open>
  C7: at startup, before any polling, the output holds exactly one line telling the result
  of the initialisation, \<^verbatim>\<open>CAN Init ok\<close> on success and \<^verbatim>\<open>Can't init CAN\<close> on failure,
  followed by the one static line \<^verbatim>\<open>CAN Read - Test receiving of CAN Bus message\<close>, in
  that order; the only driver call made so far is the initialisation.
\<close>

theorem setup_ino_lines:
  "serial (setup_ino D w) =
     serial w
       @ (if fst (Canbus_init D (CANSPEED_500 D) (hw w)) then ''CAN Init ok''
          else ''Can't init CAN'') @ line_end
       @ ''CAN Read - Test receiving of CAN Bus message'' @ line_end \<and>
   calls (setup_ino D w) = calls w @ [Call_init (fst (Canbus_init D (CANSPEED_500 D) (hw w)))] \<and>
   run D 0 h = Inr (setup_ino D (power_on h)) \<and>
   serial (power_on h) = [] \<and> calls (power_on h) = []"
  by (simp add: setup_ino_def run_def power_on_def Serial_println_def split: prod.split)

theorem setup_ino_lines_witness:
  "run fifo_driver 0 (True, [obd_request]) =
     Inr \<lparr>hw = (True, [obd_request]),
          serial = ''CAN Init ok'' @ line_end
             @ ''CAN Read - Test receiving of CAN Bus message'' @ line_end,
          calls = [Call_init True]\<rparr> \<and>
   run fifo_driver 0 (False, [obd_request]) =
     Inr \<lparr>hw = (False, [obd_request]),
          serial = ''Can't init CAN'' @ line_end
             @ ''CAN Read - Test receiving of CAN Bus message'' @ line_end,
          calls = [Call_init False]\<rparr>"
  using setup_ino_lines [of fifo_driver "power_on (True, [obd_request])" "(True, [obd_request])"]
    setup_ino_lines [of fifo_driver "power_on (False, [obd_request])" "(False, [obd_request])"]
  by (simp add: fifo_driver_def power_on_def setup_ino_def Serial_println_def)

section \<open>One iteration\<close>

lemma print_data_frame:
  "hw (world_of (print_data i message w)) = hw w \<and>
   calls (world_of (print_data i message w)) = calls w"
proof (induction i message w rule: print_data.induct)
  case (1 i message w)
  show ?case
  proof (cases "i < header_length message \<and> i < length (data message)")
    case False
    then show ?thesis
      by (auto simp: print_data.simps [of i])
  next
    case True
    show ?thesis
    proof (cases "sprintf_02X 3 (data message ! i)")
      case (Inl e)
      with True show ?thesis
        by (simp add: print_data.simps [of i])
    next
      case (Inr buf)
      from True have a: "i < header_length message" and b: "i < length (data message)"
        by simp_all
      from "1.IH" [OF a b Inr] True Inr show ?thesis
        by (simp add: print_data.simps [of i] Serial_print_def)
    qed
  qed
qed

lemma print_message_frame:
  "hw (world_of (print_message message w)) = hw w \<and>
   calls (world_of (print_message message w)) = calls w"
proof (cases "print_data 0 message
    (Serial_print ''Data: '' (Serial_print '' ''
       (Serial_print_HEX (id_field message) (Serial_print ''ID: '' w))))")
  case (Inl e)
  obtain f v where e: "e = (f, v)" by (cases e)
  from print_data_frame [of 0 message
      "Serial_print ''Data: '' (Serial_print '' ''
         (Serial_print_HEX (id_field message) (Serial_print ''ID: '' w)))"] Inl e
  show ?thesis
    by (simp add: print_message_def Serial_print_def Serial_print_HEX_def)
next
  case (Inr v)
  from print_data_frame [of 0 message
      "Serial_print ''Data: '' (Serial_print '' ''
         (Serial_print_HEX (id_field message) (Serial_print ''ID: '' w)))"] Inr
  show ?thesis
    by (simp add: print_message_def Serial_print_def Serial_print_HEX_def Serial_println_def)
qed

lemma loop_not_pending:
  "\<not> fst (mcp2515_check_message D (hw w)) \<Longrightarrow>
     loop D w = Inr (w\<lparr>hw := snd (mcp2515_check_message D (hw w)),
                       calls := calls w @ [Call_check_message False]\<rparr>)"
  by (auto simp: loop_def Let_def split: prod.split)

lemma loop_nothing_received:
  "fst (mcp2515_check_message D (hw w)) \<Longrightarrow>
   fst (mcp2515_get_message D (snd (mcp2515_check_message D (hw w)))) = None \<Longrightarrow>
     loop D w =
       Inr (w\<lparr>hw := snd (mcp2515_get_message D (snd (mcp2515_check_message D (hw w)))),
              calls := calls w @ [Call_check_message True, Call_get_message None]\<rparr>)"
  by (auto simp: loop_def Let_def split: prod.split)

lemma loop_received:
  "fst (mcp2515_check_message D (hw w)) \<Longrightarrow>
   fst (mcp2515_get_message D (snd (mcp2515_check_message D (hw w)))) = Some message \<Longrightarrow>
     loop D w =
       print_message message
         (w\<lparr>hw := snd (mcp2515_get_message D (snd (mcp2515_check_message D (hw w)))),
            calls := calls w @ [Call_check_message True, Call_get_message (Some message)]\<rparr>)"
  by (auto simp: loop_def Let_def split: prod.split)

lemma loop_calls:
  "calls (world_of (loop D w)) =
     calls w @
       (if fst (mcp2515_check_message D (hw w))
        then [Call_check_message True,
              Call_get_message (fst (mcp2515_get_message D (snd (mcp2515_check_message D (hw w)))))]
        else [Call_check_message False])"
proof (cases "fst (mcp2515_check_message D (hw w))")
  case False
  then show ?thesis by (simp add: loop_not_pending)
next
  case True
  show ?thesis
  proof (cases "fst (mcp2515_get_message D (snd (mcp2515_check_message D (hw w))))")
    case None
    with True show ?thesis by (simp add: loop_nothing_received)
  next
    case (Some message)
    with True show ?thesis by (simp add: loop_received print_message_frame)
  qed
qed

lemma called_loop:
  "called w (loop D w) =
     (if fst (mcp2515_check_message D (hw w))
      then [Call_check_message True,
            Call_get_message (fst (mcp2515_get_message D (snd (mcp2515_check_message D (hw w)))))]
      else [Call_check_message False])"
  by (simp add: called_def loop_calls)

section \<open>Many iterations\<close>

lemma guarded_log_append:
  "guarded_log xs \<Longrightarrow> guarded_log ys \<Longrightarrow> guarded_log (xs @ ys)"
  by (induction xs rule: guarded_log.induct) simp_all

lemma guarded_log_called_loop: "guarded_log (called w (loop D w))"
  by (simp add: called_loop)

lemma loops_calls:
  "\<exists>cs. calls (world_of (loops D n w)) = calls w @ cs \<and> guarded_log cs"
proof (induction n arbitrary: w)
  case 0
  show ?case by simp
next
  case (Suc n)
  have step: "calls (world_of (loop D w)) = calls w @ called w (loop D w)"
    by (simp add: called_def loop_calls)
  show ?case
  proof (cases "loop D w")
    case (Inl e)
    with step guarded_log_called_loop [of w D] show ?thesis
      by auto
  next
    case (Inr w')
    from Suc.IH [of w'] obtain cs
      where cs: "calls (world_of (loops D n w')) = calls w' @ cs" "guarded_log cs"
      by blast
    from step Inr have "calls w' = calls w @ called w (loop D w)"
      by simp
    with cs Inr have "calls (world_of (loops D (Suc n) w)) = calls w @ (called w (loop D w) @ cs)"
      by simp
    moreover have "guarded_log (called w (loop D w) @ cs)"
      using guarded_log_called_loop cs(2) by (rule guarded_log_append)
    ultimately show ?thesis by blast
  qed
qed

lemma guarded_log_called_loops: "guarded_log (called w (loops D n w))"
proof -
  from loops_calls [of D n w] obtain cs
    where "calls (world_of (loops D n w)) = calls w @ cs" "guarded_log cs"
    by blast
  then show ?thesis by (simp add: called_def)
qed

text \<open>
  C3: in every iteration \<^verbatim>\<open>mcp2515_get_message\<close> (receiveFrame) is called only if the
  \<^verbatim>\<open>mcp2515_check_message\<close> (hasPendingFrame) of that same iteration returned true. If the
  calls of an iteration contain a \<^verbatim>\<open>mcp2515_get_message\<close>, the check returned true and
  the calls are exactly that check followed by that one get; if the check returned false
  the check is the only call. Over any number of iterations after \<^verbatim>\<open>setup()\<close> the log
  consists of such blocks only.
\<close>

theorem get_message_only_when_pending:
  "(Call_get_message got \<in> set (called w (loop D w)) \<longrightarrow>
      fst (mcp2515_check_message D (hw w)) \<and>
      called w (loop D w) = [Call_check_message True, Call_get_message got]) \<and>
   (\<not> fst (mcp2515_check_message D (hw w)) \<longrightarrow>
      called w (loop D w) = [Call_check_message False]) \<and>
   guarded_log (called (setup_ino D (power_on h)) (run D n h))"
  by (auto simp: called_loop run_def guarded_log_called_loops split: if_splits)


theorem get_message_only_when_pending_witness:
  "Call_get_message (Some obd_request)
     \<in> set (called (power_on (True, [obd_request]))
              (loop fifo_driver (power_on (True, [obd_request])))) \<and>
   fst (mcp2515_check_message fifo_driver (hw (power_on (True, [obd_request])))) \<and>
   called (power_on (True, [obd_request])) (loop fifo_driver (power_on (True, [obd_request]))) =
     [Call_check_message True, Call_get_message (Some obd_request)] \<and>
   \<not> fst (mcp2515_check_message fifo_driver (hw (power_on (True, [])))) \<and>
   called (power_on (True, [])) (loop fifo_driver (power_on (True, []))) =
     [Call_check_message False]"
proof -
  have pending: "fst (mcp2515_check_message fifo_driver (hw (power_on (True, [obd_request]))))"
    by (simp add: fifo_driver_def power_on_def)
  have idle: "\<not> fst (mcp2515_check_message fifo_driver (hw (power_on (True, []))))"
    by (simp add: fifo_driver_def power_on_def)
  have got: "Call_get_message (Some obd_request)
     \<in> set (called (power_on (True, [obd_request]))
              (loop fifo_driver (power_on (True, [obd_request]))))"
    by (simp add: called_loop fifo_driver_def power_on_def)
  from get_message_only_when_pending
    [of "Some obd_request" "power_on (True, [obd_request])" fifo_driver "(True, [])" 0] got
  have "called (power_on (True, [obd_request])) (loop fifo_driver (power_on (True, [obd_request]))) =
     [Call_check_message True, Call_get_message (Some obd_request)]"
    by blast
  moreover from get_message_only_when_pending
    [of None "power_on (True, [])" fifo_driver "(True, [])" 0] idle
  have "called (power_on (True, [])) (loop fifo_driver (power_on (True, []))) =
     [Call_check_message False]"
    by blast
  ultimately show ?thesis
    using pending idle got by blast
qed

section \<open>The queue scenario\<close>

lemma fifo_check:
  "mcp2515_check_message fifo_driver (ok, queue) = (queue \<noteq> [], (ok, queue))"
  by (simp add: fifo_driver_def)

lemma fifo_get_Cons:
  "mcp2515_get_message fifo_driver (ok, message # queue) = (Some message, (ok, queue))"
  by (simp add: fifo_driver_def)

lemma loop_fifo_empty:
  "hw w = (ok, []) \<Longrightarrow>
     loop fifo_driver w = Inr (w\<lparr>calls := calls w @ [Call_check_message False]\<rparr>)"
  by (simp add: loop_not_pending fifo_check)

lemma loop_fifo_Cons:
  "hw w = (ok, message # queue) \<Longrightarrow> valid_frame message \<Longrightarrow>
     loop fifo_driver w =
       Inr (w\<lparr>hw := (ok, queue),
              serial := serial w @ format_line message,
              calls := calls w @ [Call_check_message True, Call_get_message (Some message)]\<rparr>)"
  by (simp add: loop_received [where message = message] fifo_check fifo_get_Cons
      print_message_valid)

lemma loops_fifo:
  "list_all valid_frame queue \<Longrightarrow> hw w = (ok, queue) \<Longrightarrow>
     loops fifo_driver n w =
       Inr (w\<lparr>hw := (ok, drop n queue),
              serial := serial w @ concat (map format_line (take n queue)),
              calls := calls w @ fifo_calls n queue\<rparr>)"
proof (induction n arbitrary: w queue)
  case 0
  then show ?case by (simp add: fifo_calls_def)
next
  case (Suc n)
  show ?case
  proof (cases queue)
    case Nil
    with Suc.prems have step: "loop fifo_driver w =
        Inr (w\<lparr>calls := calls w @ [Call_check_message False]\<rparr>)"
      by (simp add: loop_fifo_empty)
    have "loops fifo_driver n (w\<lparr>calls := calls w @ [Call_check_message False]\<rparr>) =
        Inr (w\<lparr>calls := calls w @ [Call_check_message False]\<rparr>
              \<lparr>hw := (ok, drop n []),
               serial := serial (w\<lparr>calls := calls w @ [Call_check_message False]\<rparr>)
                  @ concat (map format_line (take n [])),
               calls := calls (w\<lparr>calls := calls w @ [Call_check_message False]\<rparr>)
                  @ fifo_calls n []\<rparr>)"
      using Suc.prems Nil by (intro Suc.IH) simp_all
    with step Nil Suc.prems show ?thesis
      by (simp add: fifo_calls_def)
  next
    case (Cons message rest)
    with Suc.prems have valid: "valid_frame message" and rest: "list_all valid_frame rest"
      by simp_all
    let ?w' = "w\<lparr>hw := (ok, rest),
              serial := serial w @ format_line message,
              calls := calls w @ [Call_check_message True, Call_get_message (Some message)]\<rparr>"
    from Suc.prems Cons valid have step: "loop fifo_driver w = Inr ?w'"
      by (simp add: loop_fifo_Cons)
    have "loops fifo_driver n ?w' =
        Inr (?w'\<lparr>hw := (ok, drop n rest),
               serial := serial ?w' @ concat (map format_line (take n rest)),
               calls := calls ?w' @ fifo_calls n rest\<rparr>)"
      using rest by (intro Suc.IH) simp_all
    with step Cons show ?thesis
      by (simp add: fifo_calls_def)
  qed
qed

text \<open>
  C8: each iteration calls \<^verbatim>\<open>mcp2515_get_message\<close> at most once and writes at most one
  line: nothing when no frame is pending, nothing (and no fault) when the call yields no
  frame, and exactly the line of the frame when it yields one. With several frames
  pending in a controller that hands out one frame per call, \<open>n\<close> iterations write the
  lines of the first \<open>n\<close> frames in order, one per iteration: the second frame's line
  appears in the iteration after the first.
\<close>

theorem loop_one_line_per_get:
  assumes "case fst (mcp2515_get_message D (snd (mcp2515_check_message D (hw w)))) of
             Some message \<Rightarrow> valid_frame message | None \<Rightarrow> True"
      and "list_all valid_frame queue"
  shows "length (filter is_get_message (called w (loop D w))) \<le> 1 \<and>
         \<not> faulted (loop D w) \<and>
         one_line_per_get (called w (loop D w)) (written w (loop D w)) \<and>
         loops fifo_driver n (v\<lparr>hw := (ok, queue)\<rparr>) =
           Inr (v\<lparr>hw := (ok, drop n queue),
                  serial := serial v @ concat (map format_line (take n queue)),
                  calls := calls v @ fifo_calls n queue\<rparr>)"
proof -
  have one: "length (filter is_get_message (called w (loop D w))) \<le> 1"
    by (simp add: called_loop)
  have rest: "\<not> faulted (loop D w) \<and>
      one_line_per_get (called w (loop D w)) (written w (loop D w))"
  proof (cases "fst (mcp2515_check_message D (hw w))")
    case False
    then show ?thesis
      by (simp add: called_loop) (simp add: loop_not_pending written_def)
  next
    case True
    show ?thesis
    proof (cases "fst (mcp2515_get_message D (snd (mcp2515_check_message D (hw w))))")
      case None
      with True show ?thesis
        by (simp add: called_loop) (simp add: loop_nothing_received written_def)
    next
      case (Some message)
      with assms(1) have "valid_frame message" by simp
      with True Some show ?thesis
        by (simp add: called_loop) (simp add: loop_received print_message_valid written_def)
    qed
  qed
  have "loops fifo_driver n (v\<lparr>hw := (ok, queue)\<rparr>) =
      Inr (v\<lparr>hw := (ok, queue)\<rparr>
            \<lparr>hw := (ok, drop n queue),
             serial := serial (v\<lparr>hw := (ok, queue)\<rparr>) @ concat (map format_line (take n queue)),
             calls := calls (v\<lparr>hw := (ok, queue)\<rparr>) @ fifo_calls n queue\<rparr>)"
    using assms(2) by (intro loops_fifo) simp_all
  with one rest show ?thesis by simp
qed


lemma valid_engine_reply: "valid_frame engine_reply"
  by (simp add: valid_frame_def tCAN_wf_def engine_reply_def)

lemma format_line_engine_reply:
  "format_line engine_reply = ''ID: 7E8 Data: 04410C1A'' @ line_end"
  by (simp add: format_line_def engine_reply_def payload_def two_hex_digits_def
      hex_digits_upper_def uppercase_hex.simps)

theorem loop_one_line_per_get_witness:
  "list_all valid_frame [obd_request, engine_reply] \<and>
   loops fifo_driver 1 (power_on (True, [obd_request, engine_reply])) =
     Inr \<lparr>hw = (True, [engine_reply]),
          serial = ''ID: 7DF Data: 02010C'' @ line_end,
          calls = [Call_check_message True, Call_get_message (Some obd_request)]\<rparr> \<and>
   loops fifo_driver 2 (power_on (True, [obd_request, engine_reply])) =
     Inr \<lparr>hw = (True, []),
          serial = ''ID: 7DF Data: 02010C'' @ line_end @ ''ID: 7E8 Data: 04410C1A'' @ line_end,
          calls = [Call_check_message True, Call_get_message (Some obd_request),
                   Call_check_message True, Call_get_message (Some engine_reply)]\<rparr> \<and>
   loops fifo_driver 3 (power_on (True, [obd_request, engine_reply])) =
     Inr \<lparr>hw = (True, []),
          serial = ''ID: 7DF Data: 02010C'' @ line_end @ ''ID: 7E8 Data: 04410C1A'' @ line_end,
          calls = [Call_check_message True, Call_get_message (Some obd_request),
                   Call_check_message True, Call_get_message (Some engine_reply),
                   Call_check_message False]\<rparr> \<and>
   \<not> faulted (loop fifo_driver (power_on (True, [obd_request, engine_reply]))) \<and>
   one_line_per_get
     (called (power_on (True, [obd_request, engine_reply]))
        (loop fifo_driver (power_on (True, [obd_request, engine_reply]))))
     (written (power_on (True, [obd_request, engine_reply]))
        (loop fifo_driver (power_on (True, [obd_request, engine_reply]))))"
proof -
  have valid: "list_all valid_frame [obd_request, engine_reply]"
    by (simp add: valid_obd_request valid_engine_reply)
  have first: "case fst (mcp2515_get_message fifo_driver (snd (mcp2515_check_message fifo_driver
       (hw (power_on (True, [obd_request, engine_reply])))))) of
         Some message \<Rightarrow> valid_frame message | None \<Rightarrow> True"
    by (simp add: fifo_check fifo_get_Cons power_on_def valid_obd_request)
  have start: "power_on (True, [obd_request, engine_reply]) =
      (power_on (True, []))\<lparr>hw := (True, [obd_request, engine_reply])\<rparr>"
    by (simp add: power_on_def)
  note at_input = loop_one_line_per_get [OF first valid,
      where v = "power_on (True, [])" and ok = True]
  have one: "loops fifo_driver 1 (power_on (True, [obd_request, engine_reply])) =
     Inr \<lparr>hw = (True, [engine_reply]),
          serial = ''ID: 7DF Data: 02010C'' @ line_end,
          calls = [Call_check_message True, Call_get_message (Some obd_request)]\<rparr>"
    using at_input [where n = 1]
    by (simp add: start [symmetric] fifo_calls_def format_line_obd_request)
       (simp add: power_on_def)
  have two: "loops fifo_driver 2 (power_on (True, [obd_request, engine_reply])) =
     Inr \<lparr>hw = (True, []),
          serial = ''ID: 7DF Data: 02010C'' @ line_end @ ''ID: 7E8 Data: 04410C1A'' @ line_end,
          calls = [Call_check_message True, Call_get_message (Some obd_request),
                   Call_check_message True, Call_get_message (Some engine_reply)]\<rparr>"
    using at_input [where n = 2]
    by (simp add: start [symmetric] fifo_calls_def format_line_obd_request
          format_line_engine_reply)
       (simp add: power_on_def)
  have three: "loops fifo_driver 3 (power_on (True, [obd_request, engine_reply])) =
     Inr \<lparr>hw = (True, []),
          serial = ''ID: 7DF Data: 02010C'' @ line_end @ ''ID: 7E8 Data: 04410C1A'' @ line_end,
          calls = [Call_check_message True, Call_get_message (Some obd_request),
                   Call_check_message True, Call_get_message (Some engine_reply),
                   Call_check_message False]\<rparr>"
    using at_input [where n = 3]
    by (simp add: start [symmetric] fifo_calls_def format_line_obd_request
          format_line_engine_reply)
       (simp add: power_on_def)
  from at_input [where n = 0] valid one two three show ?thesis
    by blast
qed


section \<open>After a failed initialisation\<close>

lemma setup_ino_failed:
  "\<not> fst (Canbus_init D (CANSPEED_500 D) (hw w)) \<Longrightarrow>
     setup_ino D w =
       w\<lparr>hw := snd (Canbus_init D (CANSPEED_500 D) (hw w)),
         serial := serial w @ ''Can't init CAN'' @ line_end
            @ ''CAN Read - Test receiving of CAN Bus message'' @ line_end,
         calls := calls w @ [Call_init False]\<rparr>"
  by (auto simp: setup_ino_def Serial_println_def Let_def split: prod.split)

lemma hw_setup_ino:
  "hw (setup_ino D w) = snd (Canbus_init D (CANSPEED_500 D) (hw w))"
  by (simp add: setup_ino_def Serial_println_def Let_def split: prod.split)

lemma loops_quiet:
  "quiet_for D n (hw w) \<Longrightarrow>
     \<not> faulted (loops D n w) \<and>
     serial (world_of (loops D n w)) = serial w \<and>
     calls (world_of (loops D n w)) = calls w @ replicate n (Call_check_message False)"
proof (induction n arbitrary: w)
  case 0
  show ?case by simp
next
  case (Suc n)
  let ?w' = "w\<lparr>hw := snd (mcp2515_check_message D (hw w)),
               calls := calls w @ [Call_check_message False]\<rparr>"
  from Suc.prems have idle: "\<not> fst (mcp2515_check_message D (hw w))"
    and later: "quiet_for D n (hw ?w')"
    by simp_all
  from idle have step: "loop D w = Inr ?w'"
    by (simp add: loop_not_pending)
  from Suc.IH [OF later] step show ?case
    by (simp add: replicate_append_same)
qed

lemma loop_quiet_writes_nothing:
  "\<not> fst (mcp2515_check_message D (hw w)) \<Longrightarrow>
     \<not> faulted (loop D w) \<and> written w (loop D w) = []"
  by (simp add: loop_not_pending written_def)

lemma loop_received_writes_line:
  "fst (mcp2515_check_message D (hw w)) \<Longrightarrow>
   fst (mcp2515_get_message D (snd (mcp2515_check_message D (hw w)))) = Some message \<Longrightarrow>
   valid_frame message \<Longrightarrow>
     \<not> faulted (loop D w) \<and> written w (loop D w) = format_line message"
  by (simp add: loop_received [where message = message] print_message_valid written_def)

text \<open>
  C2, as the sketch has it: \<^verbatim>\<open>loop()\<close> does not look at the result of the initialisation.
  If the single \<^verbatim>\<open>Canbus.init\<close> call at startup fails, the output holds the failure line
  \<^verbatim>\<open>Can't init CAN\<close> followed by the static line, and the initialisation is the only
  driver call so far. After that every iteration still calls \<^verbatim>\<open>mcp2515_check_message\<close>
  once, first of all, and calls \<^verbatim>\<open>mcp2515_get_message\<close> once exactly when that check
  returned true; a valid frame it yields is printed as its line. An iteration whose
  check returns false writes nothing and makes no other call. So as long as the check
  keeps returning false along the run, for \<open>n\<close> iterations, the output is still the two
  startup lines and the log is the initialisation and \<open>n\<close> checks.
\<close>

theorem failed_init_still_polls:
  assumes "\<not> fst (Canbus_init D (CANSPEED_500 D) h)"
  shows "serial (setup_ino D (power_on h)) =
           ''Can't init CAN'' @ line_end
             @ ''CAN Read - Test receiving of CAN Bus message'' @ line_end \<and>
         calls (setup_ino D (power_on h)) = [Call_init False] \<and>
         called w (loop D w) =
           (if fst (mcp2515_check_message D (hw w))
            then [Call_check_message True,
                  Call_get_message
                    (fst (mcp2515_get_message D (snd (mcp2515_check_message D (hw w)))))]
            else [Call_check_message False]) \<and>
         (\<not> fst (mcp2515_check_message D (hw w)) \<longrightarrow>
            \<not> faulted (loop D w) \<and> written w (loop D w) = []) \<and>
         (fst (mcp2515_check_message D (hw w)) \<and>
          fst (mcp2515_get_message D (snd (mcp2515_check_message D (hw w)))) = Some message \<and>
          valid_frame message \<longrightarrow>
            \<not> faulted (loop D w) \<and> written w (loop D w) = format_line message) \<and>
         (quiet_for D n (snd (Canbus_init D (CANSPEED_500 D) h)) \<longrightarrow>
            \<not> faulted (run D n h) \<and>
            serial (world_of (run D n h)) =
              ''Can't init CAN'' @ line_end
                @ ''CAN Read - Test receiving of CAN Bus message'' @ line_end \<and>
            calls (world_of (run D n h)) =
              Call_init False # replicate n (Call_check_message False))"
proof -
  from assms have failed: "\<not> fst (Canbus_init D (CANSPEED_500 D) (hw (power_on h)))"
    by (simp add: power_on_def)
  have start: "serial (setup_ino D (power_on h)) =
           ''Can't init CAN'' @ line_end
             @ ''CAN Read - Test receiving of CAN Bus message'' @ line_end \<and>
         calls (setup_ino D (power_on h)) = [Call_init False]"
    by (simp add: setup_ino_failed [OF failed]) (simp add: power_on_def)
  have after: "hw (setup_ino D (power_on h)) = snd (Canbus_init D (CANSPEED_500 D) h)"
    by (simp add: hw_setup_ino power_on_def)
  have quiet: "quiet_for D n (snd (Canbus_init D (CANSPEED_500 D) h)) \<longrightarrow>
            \<not> faulted (run D n h) \<and>
            serial (world_of (run D n h)) =
              ''Can't init CAN'' @ line_end
                @ ''CAN Read - Test receiving of CAN Bus message'' @ line_end \<and>
            calls (world_of (run D n h)) =
              Call_init False # replicate n (Call_check_message False)"
  proof
    assume "quiet_for D n (snd (Canbus_init D (CANSPEED_500 D) h))"
    then have "quiet_for D n (hw (setup_ino D (power_on h)))"
      by (simp only: after)
    from loops_quiet [OF this] start show
      "\<not> faulted (run D n h) \<and>
       serial (world_of (run D n h)) =
         ''Can't init CAN'' @ line_end
           @ ''CAN Read - Test receiving of CAN Bus message'' @ line_end \<and>
       calls (world_of (run D n h)) =
         Call_init False # replicate n (Call_check_message False)"
      by (simp add: run_def)
  qed
  from start called_loop [of w D] loop_quiet_writes_nothing [of D w]
    loop_received_writes_line [of D w message] quiet
  show ?thesis by blast
qed

theorem failed_init_still_polls_witness:
  "\<not> fst (Canbus_init fifo_driver (CANSPEED_500 fifo_driver) (False, [])) \<and>
   quiet_for fifo_driver 3 (snd (Canbus_init fifo_driver (CANSPEED_500 fifo_driver) (False, []))) \<and>
   \<not> faulted (run fifo_driver 3 (False, [])) \<and>
   serial (world_of (run fifo_driver 3 (False, []))) =
     ''Can't init CAN'' @ line_end
       @ ''CAN Read - Test receiving of CAN Bus message'' @ line_end \<and>
   calls (world_of (run fifo_driver 3 (False, []))) =
     [Call_init False, Call_check_message False, Call_check_message False,
      Call_check_message False] \<and>
   called (power_on (False, [obd_request])) (loop fifo_driver (power_on (False, [obd_request]))) =
     [Call_check_message True, Call_get_message (Some obd_request)] \<and>
   written (power_on (False, [obd_request])) (loop fifo_driver (power_on (False, [obd_request]))) =
     ''ID: 7DF Data: 02010C'' @ line_end \<and>
   called (power_on (False, [])) (loop fifo_driver (power_on (False, []))) =
     [Call_check_message False] \<and>
   written (power_on (False, [])) (loop fifo_driver (power_on (False, []))) = []"
proof -
  have failed: "\<not> fst (Canbus_init fifo_driver (CANSPEED_500 fifo_driver) (False, []))"
    by (simp add: fifo_driver_def)
  have quiet: "quiet_for fifo_driver 3
      (snd (Canbus_init fifo_driver (CANSPEED_500 fifo_driver) (False, [])))"
    by (simp add: fifo_driver_def numeral_3_eq_3)
  have pending: "fst (mcp2515_check_message fifo_driver (hw (power_on (False, [obd_request]))))"
    by (simp add: fifo_check power_on_def)
  have got: "fst (mcp2515_get_message fifo_driver
      (snd (mcp2515_check_message fifo_driver (hw (power_on (False, [obd_request])))))) =
        Some obd_request"
    by (simp add: fifo_check fifo_get_Cons power_on_def)
  have idle: "\<not> fst (mcp2515_check_message fifo_driver (hw (power_on (False, []))))"
    by (simp add: fifo_check power_on_def)
  note busy = failed_init_still_polls [OF failed,
      where w = "power_on (False, [obd_request])" and message = obd_request and n = 3]
  note calm = failed_init_still_polls [OF failed,
      where w = "power_on (False, [])" and message = obd_request and n = 3]
  from calm quiet have run3: "\<not> faulted (run fifo_driver 3 (False, [])) \<and>
      serial (world_of (run fifo_driver 3 (False, []))) =
        ''Can't init CAN'' @ line_end
          @ ''CAN Read - Test receiving of CAN Bus message'' @ line_end \<and>
      calls (world_of (run fifo_driver 3 (False, []))) =
        Call_init False # replicate 3 (Call_check_message False)"
    by blast
  from busy pending got have busy_calls:
    "called (power_on (False, [obd_request])) (loop fifo_driver (power_on (False, [obd_request]))) =
       [Call_check_message True, Call_get_message (Some obd_request)]"
    by simp
  from busy pending got valid_obd_request have
    "written (power_on (False, [obd_request])) (loop fifo_driver (power_on (False, [obd_request]))) =
       format_line obd_request"
    by blast
  then have busy_line:
    "written (power_on (False, [obd_request])) (loop fifo_driver (power_on (False, [obd_request]))) =
       ''ID: 7DF Data: 02010C'' @ line_end"
    by (simp only: format_line_obd_request)
  from calm idle have calm_calls:
    "called (power_on (False, [])) (loop fifo_driver (power_on (False, []))) =
       [Call_check_message False]"
    by simp
  from calm idle have calm_line:
    "written (power_on (False, [])) (loop fifo_driver (power_on (False, []))) = []"
    by blast
  from run3 have run3': "\<not> faulted (run fifo_driver 3 (False, [])) \<and>
      serial (world_of (run fifo_driver 3 (False, []))) =
        ''Can't init CAN'' @ line_end
          @ ''CAN Read - Test receiving of CAN Bus message'' @ line_end \<and>
      calls (world_of (run fifo_driver 3 (False, []))) =
        [Call_init False, Call_check_message False, Call_check_message False,
         Call_check_message False]"
    by (simp add: numeral_3_eq_3)
  from failed quiet run3' busy_calls busy_line calm_calls calm_line
  show ?thesis by blast
qed

text \<open>
  C2 as the specification words it (after a failed initialisation no call of
  \<^verbatim>\<open>mcp2515_check_message\<close> or \<^verbatim>\<open>mcp2515_get_message\<close> at all, and no data line whatever
  the controller does) fails: with a failed initialisation and one frame pending, the
  first iteration makes both calls and prints the frame.
\<close>

theorem failed_init_polls_and_prints:
  "\<not> fst (Canbus_init fifo_driver (CANSPEED_500 fifo_driver) (False, [obd_request])) \<and>
   run fifo_driver 1 (False, [obd_request]) =
     Inr \<lparr>hw = (False, []),
          serial = ''Can't init CAN'' @ line_end
             @ ''CAN Read - Test receiving of CAN Bus message'' @ line_end
             @ ''ID: 7DF Data: 02010C'' @ line_end,
          calls = [Call_init False, Call_check_message True,
                   Call_get_message (Some obd_request)]\<rparr> \<and>
   length (filter is_check_message (calls (world_of (run fifo_driver 1 (False, [obd_request]))))) = 1 \<and>
   length (filter is_get_message (calls (world_of (run fifo_driver 1 (False, [obd_request]))))) = 1"
proof -
  have failed: "\<not> fst (Canbus_init fifo_driver (CANSPEED_500 fifo_driver) (False, [obd_request]))"
    by (simp add: fifo_driver_def)
  have start: "setup_ino fifo_driver (power_on (False, [obd_request])) =
      \<lparr>hw = (False, [obd_request]),
       serial = ''Can't init CAN'' @ line_end
          @ ''CAN Read - Test receiving of CAN Bus message'' @ line_end,
       calls = [Call_init False]\<rparr>"
    by (simp add: setup_ino_def fifo_driver_def power_on_def Serial_println_def)
  have "run fifo_driver 1 (False, [obd_request]) =
     Inr \<lparr>hw = (False, []),
          serial = ''Can't init CAN'' @ line_end
             @ ''CAN Read - Test receiving of CAN Bus message'' @ line_end
             @ ''ID: 7DF Data: 02010C'' @ line_end,
          calls = [Call_init False, Call_check_message True,
                   Call_get_message (Some obd_request)]\<rparr>"
    by (simp add: run_def start
        loop_fifo_Cons [where ok = False and message = obd_request and queue = "[]"]
        valid_obd_request format_line_obd_request)
  with failed show ?thesis by simp
qed

section \<open>Reading the line back\<close>

lemma hex_value_table: "d < 16 \<Longrightarrow> hex_value (hex_digits_upper ! d) = Some d"
proof -
  assume "d < 16"
  then have "d \<in> {0, 1, 2, 3, 4, 5, 6, 7, 8, 9, 10, 11, 12, 13, 14, 15::nat}"
    by (rule below_16_cases)
  then show ?thesis
    by (auto simp: hex_value_def hex_digits_upper_def)
qed

lemma is_hex_table: "d < 16 \<Longrightarrow> is_hex (hex_digits_upper ! d)"
  by (simp add: is_hex_def hex_value_table)

lemma is_hex_uppercase_hex: "c \<in> set (uppercase_hex n) \<Longrightarrow> is_hex c"
proof (induction n rule: uppercase_hex.induct)
  case (1 n)
  show ?case
  proof (cases "n < 16")
    case True
    with "1.prems" show ?thesis
      by (simp add: uppercase_hex.simps [of n] is_hex_table)
  next
    case False
    with "1.prems" "1.IH" show ?thesis
      by (auto simp: uppercase_hex.simps [of n] is_hex_table)
  qed
qed

lemma uppercase_hex_not_Nil: "uppercase_hex n \<noteq> []"
  by (simp add: uppercase_hex.simps [of n])

lemma hex_number_snoc:
  "hex_number (s @ [c]) =
     16 * hex_number s + (case hex_value c of Some d \<Rightarrow> d | None \<Rightarrow> 0)"
  by (simp add: hex_number_def)

lemma hex_number_uppercase_hex: "hex_number (uppercase_hex n) = n"
proof (induction n rule: uppercase_hex.induct)
  case (1 n)
  show ?case
  proof (cases "n < 16")
    case True
    then show ?thesis
      by (simp add: uppercase_hex.simps [of n] hex_number_def hex_value_table)
  next
    case False
    with "1.IH" show ?thesis
      by (simp add: uppercase_hex.simps [of n] hex_number_snoc hex_value_table)
  qed
qed

lemma high_digit_less: "unat (b :: uint8_t) div 16 < 16"
  using unat_uint8_less [of b] by (simp add: less_mult_imp_div_less)

lemma is_hex_two_hex_digits: "c \<in> set (two_hex_digits b) \<Longrightarrow> is_hex c"
  by (auto simp: two_hex_digits_def is_hex_table high_digit_less)

lemma is_hex_segment: "c \<in> set (concat (map two_hex_digits bs)) \<Longrightarrow> is_hex c"
  by (auto simp: is_hex_two_hex_digits)

lemma byte_of_digits: "(of_nat (16 * (unat b div 16) + unat b mod 16) :: uint8_t) = b"
  by simp

lemma parse_hex_bytes_segment: "parse_hex_bytes (concat (map two_hex_digits bs)) = Some bs"
proof (induction bs)
  case Nil
  show ?case by simp
next
  case (Cons b bs)
  show ?case
    using Cons.IH
    by (simp add: two_hex_digits_def hex_value_table high_digit_less byte_of_digits)
qed

lemma not_is_hex_space: "\<not> is_hex (CHR '' '')"
  by (simp add: is_hex_def hex_value_def)

lemma not_is_hex_line_end: "takeWhile is_hex line_end = [] \<and> dropWhile is_hex line_end = line_end"
  by (simp add: is_hex_def hex_value_def line_end_def)

lemma parse_line_format_line:
  "parse_line (format_line message) = Some (unat (id_field message), payload message)"
proof -
  let ?id = "uppercase_hex (unat (id_field message))"
  let ?seg = "concat (map two_hex_digits (payload message))"
  have line: "format_line message = ''ID: '' @ ?id @ '' Data: '' @ ?seg @ line_end"
    by (simp add: format_line_def)
  have r1: "drop 4 (format_line message) = ?id @ '' Data: '' @ ?seg @ line_end"
    by (simp add: line)
  have head: "take 4 (format_line message) = ''ID: ''"
    by (simp add: line)
  have id_text: "takeWhile is_hex (?id @ '' Data: '' @ ?seg @ line_end) = ?id"
    using is_hex_uppercase_hex [of _ "unat (id_field message)"]
    by (simp add: not_is_hex_space)
  have r2: "dropWhile is_hex (?id @ '' Data: '' @ ?seg @ line_end) = '' Data: '' @ ?seg @ line_end"
    using is_hex_uppercase_hex [of _ "unat (id_field message)"]
    by (simp add: not_is_hex_space)
  have seg: "takeWhile is_hex (?seg @ line_end) = ?seg"
    using is_hex_segment [of _ "payload message"]
    by (simp add: not_is_hex_line_end del: set_concat)
  have r4: "dropWhile is_hex (?seg @ line_end) = line_end"
    using is_hex_segment [of _ "payload message"]
    by (simp add: not_is_hex_line_end del: set_concat)
  show ?thesis
    unfolding parse_line_def head r1 Let_def id_text r2
    using seg r4
    by (simp add: uppercase_hex_not_Nil parse_hex_bytes_segment hex_number_uppercase_hex)
qed

text \<open>
  C4: for every valid frame (length in 0..8), reading the written line back recovers the
  frame: the data segment, decoded two hexadecimal digits to a byte, is exactly the
  payload in order (and the identifier text reads back as the identifier). The payload
  has as many bytes as the length field says.
\<close>

theorem print_message_round_trip:
  assumes "valid_frame message"
  shows "parse_line (written w (print_message message w)) =
           Some (unat (id_field message), payload message) \<and>
         length (payload message) = header_length message"
  using assms
  by (simp add: print_message_valid written_def parse_line_format_line payload_def
      valid_frame_def tCAN_wf_def)

theorem print_message_round_trip_witness:
  "valid_frame obd_request \<and>
   written (power_on ()) (print_message obd_request (power_on ())) =
     ''ID: 7DF Data: 02010C'' @ line_end \<and>
   parse_line (''ID: 7DF Data: 02010C'' @ line_end) = Some (0x7DF, [0x02, 0x01, 0x0C])"
proof -
  have out: "written (power_on ()) (print_message obd_request (power_on ())) =
     ''ID: 7DF Data: 02010C'' @ line_end"
    by (simp add: print_message_valid valid_obd_request written_def format_line_obd_request)
  from print_message_round_trip [OF valid_obd_request, of "power_on ()"]
  have "parse_line (written (power_on ()) (print_message obd_request (power_on ()))) =
      Some (unat (id_field obd_request), payload obd_request)"
    by blast
  then have "parse_line (''ID: 7DF Data: 02010C'' @ line_end) = Some (0x7DF, [0x02, 0x01, 0x0C])"
    unfolding out by (simp add: obd_request_def payload_def)
  with out valid_obd_request show ?thesis by blast
qed

text \<open>The reader does reject what is not a line of the grammar, an odd run of digits for one.\<close>

lemma parse_line_rejects_odd: "parse_line (''ID: 7DF Data: 020'' @ line_end) = None"
  by (simp add: parse_line_def is_hex_def hex_value_def line_end_def)

end
